theory Spec2Isabelle
  imports Main "HOL-Library.Char_ord" "HOL-Library.List_Lexorder"
    "HOL-Library.Product_Lexorder" "HOL-Library.Multiset"
begin

section \<open>The activity store of good-life: \<open>DatabaseService\<close>\<close>

text \<open>
  The class \<open>DatabaseService\<close> (imported by the screens as
  \<open>../services/DatabaseService\<close>; its text is the last part of
  src/src/screens/ActivityDetailScreen.tsx, lines 852 to 1093) wraps one SQLite table,
  \<open>activities\<close>, of the file \<open>virtue_tracker.db\<close>. Its methods are embedded here as
  functions on an explicit state: the two private fields of the class and the rows of
  the table. Every \<open>throw\<close> and every rejected promise is a value \<open>Inl e\<close>.
  An earlier text of the class stands before it in the same file (lines 460 to 850); it
  has the same methods, each with a second branch for a driver without the
  \<open>Async\<close> interface. The model follows the later text.

  The driver is taken to do what its statements say: apart from the failures of
  \<open>initialize\<close>, which are an input of the model, a statement fails only where a
  constraint of the table rejects it.

  JavaScript strings and SQLite \<open>TEXT\<close> values are modelled as \<open>string\<close>; the order
  on them is the lexicographic order on the characters' codes, which is what both
  SQLite's default collation and \<open>Array.prototype.sort\<close> without comparator use.
  The methods are \<open>async\<close>; the model runs each call to completion before the next
  one starts (one caller, no interleaving).
\<close>

subsection \<open>Data (src/src/types/Activity.ts)\<close>

text \<open>
  \<open>Activity\<close> has the three fields of \<open>NewActivity\<close> and three more, so it is the
  record extension of it. The field \<open>id\<close> is called \<open>id'\<close>, since \<open>id\<close> is the
  identity function of HOL.
\<close>

record NewActivity =
  handle :: string
  committed_on :: string
  tags :: "string list"

record Activity = NewActivity +
  id' :: string
  created_at :: string
  updated_at :: string

text \<open>
  \<open>Partial<NewActivity>\<close>: each key may be missing, present with the value
  \<open>undefined\<close>, or present with a value.
\<close>

datatype 'a field = Absent | Undefined | Value 'a

record Partial_NewActivity =
  p_handle :: "string field"
  p_committed_on :: "string field"
  p_tags :: "string list field"

text \<open>A row of the table \<open>activities\<close>; all six columns are \<open>TEXT NOT NULL\<close>.\<close>

record row =
  col_id :: string
  col_handle :: string
  col_committed_on :: string
  col_tags :: string
  col_created_at :: string
  col_updated_at :: string

datatype error =
    NotInitialized      \<comment> \<open>\<open>Error('Database not initialized. ...')\<close> of \<open>ensureInitialized\<close>\<close>
  | OpenFailed          \<comment> \<open>\<open>SQLite.openDatabaseAsync\<close> rejects\<close>
  | DbIsNull            \<comment> \<open>\<open>Error('Failed to open database - db is null')\<close>\<close>
  | DatabaseNotOpen     \<comment> \<open>\<open>Error('Database not open')\<close> of \<open>createTables\<close>\<close>
  | ExecFailed nat      \<comment> \<open>the n-th \<open>execAsync\<close> of \<open>createTables\<close> rejects\<close>
  | ConstraintFailed    \<comment> \<open>SQLite rejects a statement: \<open>PRIMARY KEY\<close> or \<open>NOT NULL\<close>\<close>
  | SyntaxError         \<comment> \<open>\<open>JSON.parse\<close> throws\<close>

subsection \<open>\<open>JSON.stringify\<close> and \<open>JSON.parse\<close> on arrays of strings\<close>

text \<open>
  The tags are stored as the text \<open>JSON.stringify(tags)\<close> and read back with
  \<open>JSON.parse\<close>. Both are built-ins of the language; they are written out here for
  the values the store passes to them, arrays of strings.

  \<open>JSON.stringify\<close> quotes each element, escaping the double quote, the backslash and
  the control characters (below 0x20; five of them have a short escape, the others are
  written \<open>\u00XX\<close> in lower-case hexadecimal), and separates the elements by commas
  without any space.
\<close>

abbreviation dquote :: char where "dquote \<equiv> CHR 0x22"
abbreviation bslash :: char where "bslash \<equiv> CHR 0x5C"

definition hex_char :: "nat \<Rightarrow> char" where
  "hex_char n = ''0123456789abcdef'' ! (n mod 16)"

definition escape_char :: "char \<Rightarrow> string" where
  "escape_char c =
     (if c = dquote then [bslash, dquote]
      else if c = bslash then [bslash, bslash]
      else if c = CHR 0x08 then [bslash, CHR ''b'']
      else if c = CHR 0x09 then [bslash, CHR ''t'']
      else if c = CHR 0x0A then [bslash, CHR ''n'']
      else if c = CHR 0x0C then [bslash, CHR ''f'']
      else if c = CHR 0x0D then [bslash, CHR ''r'']
      else if (of_char c :: nat) < 0x20
        then [bslash, CHR ''u'', CHR ''0'', CHR ''0'',
              hex_char (of_char c div 16), hex_char (of_char c mod 16)]
      else [c])"

definition quote :: "string \<Rightarrow> string" where
  "quote s = dquote # concat (map escape_char s) @ [dquote]"

fun join_comma :: "string list \<Rightarrow> string" where
  "join_comma [] = []"
| "join_comma [x] = x"
| "join_comma (x # y # ys) = x @ CHR '','' # join_comma (y # ys)"

definition JSON_stringify :: "string list \<Rightarrow> string" where
  "JSON_stringify ts = CHR ''['' # join_comma (map quote ts) @ [CHR '']'']"

text \<open>
  \<open>JSON.parse\<close>, for the texts whose value is an array of strings: white space is
  allowed around every token, a string may hold any character from 0x20 on except
  the double quote and the backslash, and the escapes are the eight one-letter ones
  and \<open>\uXXXX\<close> with four hexadecimal digits of either case. \<open>None\<close> stands for the
  \<open>SyntaxError\<close> that \<open>JSON.parse\<close> throws. A text that is JSON but not an array of
  strings, and an escape \<open>\uXXXX\<close> above \<open>\u00FF\<close> (a character that \<open>string\<close>
  does not have), are answered \<open>None\<close> as well: the store never writes either.
\<close>

definition is_ws :: "char \<Rightarrow> bool" where
  "is_ws c \<longleftrightarrow> c = CHR 0x20 \<or> c = CHR 0x09 \<or> c = CHR 0x0A \<or> c = CHR 0x0D"

definition skip_ws :: "string \<Rightarrow> string" where
  "skip_ws = dropWhile is_ws"

definition hex_digit :: "char \<Rightarrow> nat option" where
  "hex_digit c =
     (let n = (of_char c :: nat) in
      if 0x30 \<le> n \<and> n \<le> 0x39 then Some (n - 0x30)
      else if 0x61 \<le> n \<and> n \<le> 0x66 then Some (n - 0x61 + 10)
      else if 0x41 \<le> n \<and> n \<le> 0x46 then Some (n - 0x41 + 10)
      else None)"

definition hex4 :: "char \<Rightarrow> char \<Rightarrow> char \<Rightarrow> char \<Rightarrow> char option" where
  "hex4 a b c d =
     (case (hex_digit a, hex_digit b, hex_digit c, hex_digit d) of
        (Some h3, Some h2, Some h1, Some h0) \<Rightarrow>
          (if h3 = 0 \<and> h2 = 0 then Some (char_of (16 * h1 + h0)) else None)
      | _ \<Rightarrow> None)"

definition unescape :: "char \<Rightarrow> char option" where
  "unescape e =
     (if e = dquote then Some dquote
      else if e = bslash then Some bslash
      else if e = CHR ''/'' then Some CHR ''/''
      else if e = CHR ''b'' then Some (CHR 0x08)
      else if e = CHR ''f'' then Some (CHR 0x0C)
      else if e = CHR ''n'' then Some (CHR 0x0A)
      else if e = CHR ''r'' then Some (CHR 0x0D)
      else if e = CHR ''t'' then Some (CHR 0x09)
      else None)"

text \<open>The characters of a string after its opening quote, up to the closing one.\<close>

fun parse_chars :: "string \<Rightarrow> (string \<times> string) option" where
  "parse_chars [] = None"
| "parse_chars (c # cs) =
     (if c = dquote then Some ([], cs)
      else if c = bslash then
        (case cs of
           [] \<Rightarrow> None
         | e # r \<Rightarrow>
             if e = CHR ''u'' then
               (case r of
                  h3 # h2 # h1 # h0 # r' \<Rightarrow>
                    (case hex4 h3 h2 h1 h0 of
                       None \<Rightarrow> None
                     | Some ch \<Rightarrow> map_option (\<lambda>(s, rest). (ch # s, rest)) (parse_chars r'))
                | _ \<Rightarrow> None)
             else
               (case unescape e of
                  None \<Rightarrow> None
                | Some ch \<Rightarrow> map_option (\<lambda>(s, rest). (ch # s, rest)) (parse_chars r)))
      else if (of_char c :: nat) < 0x20 then None
      else map_option (\<lambda>(s, rest). (c # s, rest)) (parse_chars cs))"

lemma parse_chars_shorter:
  "parse_chars cs = Some (s, rest) \<Longrightarrow> length rest < length cs"
proof (induction cs arbitrary: s rest rule: parse_chars.induct)
  case 1
  then show ?case by simp
next
  case (2 c cs)
  then show ?case
    by (fastforce split: if_splits list.splits option.splits)
qed

lemma skip_ws_length: "length (skip_ws cs) \<le> length cs"
  by (simp add: skip_ws_def length_dropWhile_le)

text \<open>
  The elements of a non-empty array, from the opening quote of its first string to
  the closing bracket.
\<close>

function parse_elements :: "string \<Rightarrow> (string list \<times> string) option" where
  "parse_elements cs =
     (case cs of
        [] \<Rightarrow> None
      | c # r \<Rightarrow>
          if c \<noteq> dquote then None
          else
            (case parse_chars r of
               None \<Rightarrow> None
             | Some (s, r1) \<Rightarrow>
                 (case skip_ws r1 of
                    [] \<Rightarrow> None
                  | d # r2 \<Rightarrow>
                      if d = CHR '']'' then Some ([s], r2)
                      else if d = CHR '','' then
                        map_option (\<lambda>(ss, rest). (s # ss, rest)) (parse_elements (skip_ws r2))
                      else None)))"
  by pat_completeness auto

termination
proof (relation "measure length")
  show "wf (measure length)" by simp
next
  fix cs c r x2 s r1 d r2
  assume a: "cs = c # r" "parse_chars r = Some x2" "(s, r1) = x2" "skip_ws r1 = d # r2"
  from a have "length r1 < length r" using parse_chars_shorter by metis
  moreover have "length (skip_ws r1) \<le> length r1" by (rule skip_ws_length)
  moreover have "length (skip_ws r2) \<le> length r2" by (rule skip_ws_length)
  ultimately show "(skip_ws r2, cs) \<in> measure length" using a by simp
qed

declare parse_elements.simps [simp del]

definition JSON_parse :: "string \<Rightarrow> string list option" where
  "JSON_parse text =
     (case skip_ws text of
        [] \<Rightarrow> None
      | c # r \<Rightarrow>
          if c \<noteq> CHR ''['' then None
          else
            (case skip_ws r of
               [] \<Rightarrow> None
             | d # r1 \<Rightarrow>
                 if d = CHR '']'' then (if skip_ws r1 = [] then Some [] else None)
                 else
                   (case parse_elements (d # r1) of
                      None \<Rightarrow> None
                    | Some (ss, rest) \<Rightarrow> if skip_ws rest = [] then Some ss else None)))"

subsection \<open>The state: the fields of the class and the table\<close>

text \<open>
  \<open>db\<close> and \<open>isInitialized\<close> are the private fields of the class; \<open>db\<close> is the handle
  that \<open>SQLite.openDatabaseAsync\<close> returned, or \<open>null\<close>. \<open>activities\<close> is not a
  field: it is the content of the table \<open>activities\<close> in the database file, in
  insertion order, which outlives the handle. A table that was never created has no
  rows, and \<open>CREATE TABLE IF NOT EXISTS\<close> leaves the rows as they are.
\<close>

datatype SQLiteDatabase = SQLiteDatabase string

record DatabaseService =
  db :: "SQLiteDatabase option"
  isInitialized :: bool
  activities :: "row list"

text \<open>The state in which \<open>ensureInitialized\<close> (lines 904 to 908) lets a call through.\<close>

definition READY :: "DatabaseService \<Rightarrow> bool" where
  "READY s \<longleftrightarrow> isInitialized s \<and> db s \<noteq> None"

definition ensureInitialized :: "DatabaseService \<Rightarrow> error + unit" where
  "ensureInitialized s =
     (if \<not> isInitialized s \<or> db s = None then Inl NotInitialized else Inr ())"

subsection \<open>\<open>initialize\<close> (lines 858 to 902) and \<open>createTables\<close> (lines 910 to 942)\<close>

text \<open>
  What the SQLite driver answers during one run of \<open>initialize\<close>:
  \<open>openDatabaseAsync\<close> rejects, or resolves to a handle or to \<open>null\<close>; the n-th
  \<open>execAsync\<close> of \<open>createTables\<close> (numbered from 0) resolves where \<open>execAsync\<close> is
  \<open>True\<close> and rejects otherwise.
\<close>

datatype open_result = Rejects | Resolves "SQLiteDatabase option"

record init_env =
  openDatabaseAsync :: open_result
  execAsync :: "nat \<Rightarrow> bool"

definition createTables :: "(nat \<Rightarrow> bool) \<Rightarrow> DatabaseService \<Rightarrow> error + unit" where
  "createTables exec s =
     (if db s = None then Inl DatabaseNotOpen
      else if \<not> exec 0 then Inl (ExecFailed 0)
      else if \<not> exec 1 then Inl (ExecFailed 1)
      else if \<not> exec 2 then Inl (ExecFailed 2)
      else Inr ())"

text \<open>The body of the \<open>try\<close> block, with the state it leaves behind.\<close>

definition initialize_try :: "init_env \<Rightarrow> DatabaseService \<Rightarrow> (error + unit) \<times> DatabaseService" where
  "initialize_try env s =
     (let s1 = s\<lparr>isInitialized := False, db := None\<rparr> in
      case openDatabaseAsync env of
        Rejects \<Rightarrow> (Inl OpenFailed, s1)
      | Resolves h \<Rightarrow>
          (let s2 = s1\<lparr>db := h\<rparr> in
           if db s2 = None then (Inl DbIsNull, s2)
           else
             (case createTables (execAsync env) s2 of
                Inl e \<Rightarrow> (Inl e, s2)
              | Inr _ \<Rightarrow> (Inr (), s2\<lparr>isInitialized := True\<rparr>))))"

definition initialize :: "init_env \<Rightarrow> DatabaseService \<Rightarrow> (error + unit) \<times> DatabaseService" where
  "initialize env s =
     (if isInitialized s \<and> db s \<noteq> None then (Inr (), s)
      else
        (case initialize_try env s of
           (Inl e, s') \<Rightarrow> (Inl e, s'\<lparr>db := None, isInitialized := False\<rparr>)
         | (Inr u, s') \<Rightarrow> (Inr u, s')))"

subsection \<open>The SQL statements\<close>

text \<open>
  \<open>INSERT INTO activities ... VALUES (?, ?, ?, ?, ?, ?)\<close>: \<open>id\<close> is the primary key, so
  a row whose id is in the table already is rejected.
\<close>

definition sql_insert :: "row \<Rightarrow> row list \<Rightarrow> error + row list" where
  "sql_insert r rows =
     (if col_id r \<in> set (map col_id rows) then Inl ConstraintFailed else Inr (rows @ [r]))"

text \<open>
  \<open>ORDER BY committed_on DESC, created_at DESC\<close>. SQL leaves open the order of rows
  that agree on both columns; the model puts the row inserted later first.
\<close>

definition order_by_desc :: "row list \<Rightarrow> row list" where
  "order_by_desc rows = rev (sort_key (\<lambda>r. (col_committed_on r, col_created_at r)) rows)"

text \<open>\<open>WHERE committed_on >= ? AND committed_on <= ?\<close>\<close>

definition where_range :: "string \<Rightarrow> string \<Rightarrow> row list \<Rightarrow> row list" where
  "where_range startDate endDate rows =
     filter (\<lambda>r. startDate \<le> col_committed_on r \<and> col_committed_on r \<le> endDate) rows"

text \<open>\<open>getFirstAsync('SELECT * FROM activities WHERE id = ?')\<close>: the first such row, or \<open>null\<close>.\<close>

definition sql_first_by_id :: "string \<Rightarrow> row list \<Rightarrow> row option" where
  "sql_first_by_id i rows = find (\<lambda>r. col_id r = i) rows"

text \<open>\<open>UPDATE activities SET handle = ?, committed_on = ?, tags = ?, updated_at = ? WHERE id = ?\<close>\<close>

definition sql_update :: "string \<Rightarrow> string \<Rightarrow> string \<Rightarrow> string \<Rightarrow> string \<Rightarrow> row list \<Rightarrow> row list" where
  "sql_update h c t u i rows =
     map (\<lambda>r. if col_id r = i
               then r\<lparr>col_handle := h, col_committed_on := c, col_tags := t, col_updated_at := u\<rparr>
               else r) rows"

text \<open>\<open>DELETE FROM activities WHERE id = ?\<close>: the rows left, and \<open>changes\<close>.\<close>

definition sql_delete :: "string \<Rightarrow> row list \<Rightarrow> row list \<times> nat" where
  "sql_delete i rows =
     (let rest = filter (\<lambda>r. col_id r \<noteq> i) rows in (rest, length rows - length rest))"

text \<open>\<open>SELECT DISTINCT tags FROM activities\<close>\<close>

definition sql_distinct_tags :: "row list \<Rightarrow> string list" where
  "sql_distinct_tags rows = remdups (map col_tags rows)"

subsection \<open>The data operations (lines 944 to 1075)\<close>

text \<open>The object literal that every read builds from a row; \<open>JSON.parse\<close> may throw.\<close>

definition to_activity :: "row \<Rightarrow> error + Activity" where
  "to_activity r =
     (case JSON_parse (col_tags r) of
        None \<Rightarrow> Inl SyntaxError
      | Some ts \<Rightarrow>
          Inr \<lparr>handle = col_handle r, committed_on = col_committed_on r, tags = ts,
               id' = col_id r, created_at = col_created_at r, updated_at = col_updated_at r\<rparr>)"

text \<open>\<open>result.map((row) => ({...}))\<close>: the first \<open>JSON.parse\<close> that throws ends the call.\<close>

fun map_rows :: "row list \<Rightarrow> error + Activity list" where
  "map_rows [] = Inr []"
| "map_rows (r # rs) =
     (case to_activity r of
        Inl e \<Rightarrow> Inl e
      | Inr a \<Rightarrow> (case map_rows rs of Inl e \<Rightarrow> Inl e | Inr as \<Rightarrow> Inr (a # as)))"

text \<open>
  What \<open>addActivity\<close> reads from its environment: \<open>Date.now().toString()\<close>,
  \<open>Math.random().toString(36)\<close> and \<open>new Date().toISOString()\<close>.
\<close>

record add_env =
  Date_now :: string
  Math_random :: string
  toISOString :: string

definition substr :: "nat \<Rightarrow> nat \<Rightarrow> string \<Rightarrow> string" where
  "substr start len s = take len (drop start s)"

definition new_id :: "add_env \<Rightarrow> string" where
  "new_id env = Date_now env @ substr 2 9 (Math_random env)"

definition addActivity ::
  "add_env \<Rightarrow> DatabaseService \<Rightarrow> NewActivity \<Rightarrow> (error + Activity) \<times> DatabaseService" where
  "addActivity env s activity =
     (case ensureInitialized s of
        Inl e \<Rightarrow> (Inl e, s)
      | Inr _ \<Rightarrow>
          (let i = new_id env;
               now = toISOString env;
               tagsJson = JSON_stringify (tags activity)
           in case sql_insert
                \<lparr>col_id = i, col_handle = handle activity,
                 col_committed_on = committed_on activity, col_tags = tagsJson,
                 col_created_at = now, col_updated_at = now\<rparr> (activities s) of
                Inl e \<Rightarrow> (Inl e, s)
              | Inr rows \<Rightarrow>
                  (Inr \<lparr>handle = handle activity, committed_on = committed_on activity,
                        tags = tags activity, id' = i, created_at = now, updated_at = now\<rparr>,
                   s\<lparr>activities := rows\<rparr>)))"

definition getActivities :: "DatabaseService \<Rightarrow> error + Activity list" where
  "getActivities s =
     (case ensureInitialized s of
        Inl e \<Rightarrow> Inl e
      | Inr _ \<Rightarrow> map_rows (order_by_desc (activities s)))"

definition getActivitiesByDateRange ::
  "DatabaseService \<Rightarrow> string \<Rightarrow> string \<Rightarrow> error + Activity list" where
  "getActivitiesByDateRange s startDate endDate =
     (case ensureInitialized s of
        Inl e \<Rightarrow> Inl e
      | Inr _ \<Rightarrow> map_rows (order_by_desc (where_range startDate endDate (activities s))))"

definition getActivityById :: "DatabaseService \<Rightarrow> string \<Rightarrow> error + Activity option" where
  "getActivityById s i =
     (case ensureInitialized s of
        Inl e \<Rightarrow> Inl e
      | Inr _ \<Rightarrow>
          (case sql_first_by_id i (activities s) of
             None \<Rightarrow> Inr None
           | Some r \<Rightarrow> (case to_activity r of Inl e \<Rightarrow> Inl e | Inr a \<Rightarrow> Inr (Some a))))"

text \<open>
  \<open>{...existing, ...updates}\<close> for one key: a key that \<open>updates\<close> has wins, also when
  its value is \<open>undefined\<close> (\<open>None\<close>).
\<close>

definition spread :: "'a \<Rightarrow> 'a field \<Rightarrow> 'a option" where
  "spread existing u = (case u of Absent \<Rightarrow> Some existing | Undefined \<Rightarrow> None | Value v \<Rightarrow> Some v)"

text \<open>
  \<open>updateActivity\<close>; \<open>now\<close> is \<open>new Date().toISOString()\<close>. The statement binds
  \<open>updated.handle\<close>, \<open>updated.committed_on\<close> and \<open>JSON.stringify(updated.tags)\<close>;
  where one of them is \<open>undefined\<close> (and \<open>JSON.stringify(undefined)\<close> is), the column
  would become \<open>NULL\<close>, which \<open>NOT NULL\<close> rejects.
\<close>

definition updateActivity ::
  "string \<Rightarrow> DatabaseService \<Rightarrow> string \<Rightarrow> Partial_NewActivity
     \<Rightarrow> (error + Activity option) \<times> DatabaseService" where
  "updateActivity now s i updates =
     (case ensureInitialized s of
        Inl e \<Rightarrow> (Inl e, s)
      | Inr _ \<Rightarrow>
          (case getActivityById s i of
             Inl e \<Rightarrow> (Inl e, s)
           | Inr None \<Rightarrow> (Inr None, s)
           | Inr (Some existing) \<Rightarrow>
               (let updated_handle = spread (handle existing) (p_handle updates);
                    updated_committed_on = spread (committed_on existing) (p_committed_on updates);
                    spread_tags = spread (tags existing) (p_tags updates);
                    updated_tags = (case p_tags updates of Value t \<Rightarrow> Some t | _ \<Rightarrow> spread_tags)
                in case (updated_handle, updated_committed_on, updated_tags) of
                     (Some h, Some c, Some t) \<Rightarrow>
                       (Inr (Some (existing\<lparr>handle := h, committed_on := c, tags := t,
                                            updated_at := now\<rparr>)),
                        s\<lparr>activities := sql_update h c (JSON_stringify t) now i (activities s)\<rparr>)
                   | _ \<Rightarrow> (Inl ConstraintFailed, s))))"

definition deleteActivity :: "DatabaseService \<Rightarrow> string \<Rightarrow> (error + bool) \<times> DatabaseService" where
  "deleteActivity s i =
     (case ensureInitialized s of
        Inl e \<Rightarrow> (Inl e, s)
      | Inr _ \<Rightarrow>
          (case sql_delete i (activities s) of
             (rest, changes) \<Rightarrow> (Inr (changes > 0), s\<lparr>activities := rest\<rparr>)))"

text \<open>\<open>Set.prototype.add\<close> on a set kept in insertion order.\<close>

definition set_add :: "'a \<Rightarrow> 'a list \<Rightarrow> 'a list" where
  "set_add x xs = (if x \<in> set xs then xs else xs @ [x])"

text \<open>The two nested \<open>forEach\<close> loops of \<open>getAllTags\<close>.\<close>

fun collect_tags :: "string list \<Rightarrow> string list \<Rightarrow> error + string list" where
  "collect_tags [] allTags = Inr allTags"
| "collect_tags (t # ts) allTags =
     (case JSON_parse t of
        None \<Rightarrow> Inl SyntaxError
      | Some parsed \<Rightarrow> collect_tags ts (fold set_add parsed allTags))"

definition getAllTags :: "DatabaseService \<Rightarrow> error + string list" where
  "getAllTags s =
     (case ensureInitialized s of
        Inl e \<Rightarrow> Inl e
      | Inr _ \<Rightarrow>
          (case collect_tags (sql_distinct_tags (activities s)) [] of
             Inl e \<Rightarrow> Inl e
           | Inr allTags \<Rightarrow> Inr (sort allTags)))"

text \<open>The row that \<open>addActivity\<close> inserts and the object that it returns.\<close>

definition new_row :: "add_env \<Rightarrow> NewActivity \<Rightarrow> row" where
  "new_row env new = \<lparr>col_id = new_id env, col_handle = handle new,
     col_committed_on = committed_on new, col_tags = JSON_stringify (tags new),
     col_created_at = toISOString env, col_updated_at = toISOString env\<rparr>"

definition new_activity :: "add_env \<Rightarrow> NewActivity \<Rightarrow> Activity" where
  "new_activity env new = \<lparr>handle = handle new, committed_on = committed_on new,
     tags = tags new, id' = new_id env, created_at = toISOString env,
     updated_at = toISOString env\<rparr>"

text \<open>The answers of the driver under which \<open>initialize\<close> throws.\<close>

definition init_fails :: "init_env \<Rightarrow> bool" where
  "init_fails env \<longleftrightarrow>
     openDatabaseAsync env = Rejects \<or> openDatabaseAsync env = Resolves None
   \<or> \<not> execAsync env 0 \<or> \<not> execAsync env 1 \<or> \<not> execAsync env 2"

text \<open>The key of \<open>ORDER BY\<close>, and the order that the listings are to have.\<close>

abbreviation sort_key_of :: "row \<Rightarrow> string \<times> string" where
  "sort_key_of r \<equiv> (col_committed_on r, col_created_at r)"

definition newest_first :: "Activity \<Rightarrow> Activity \<Rightarrow> bool" where
  "newest_first a b \<longleftrightarrow>
     committed_on b < committed_on a
   \<or> (committed_on b = committed_on a \<and> created_at b \<le> created_at a)"

text \<open>
  What a row holds and what an activity holds, column by column; the tags of a row are
  the array that its \<open>tags\<close> text denotes.
\<close>

definition row_columns :: "row \<Rightarrow> string \<times> string \<times> string \<times> string list option \<times> string \<times> string" where
  "row_columns r =
     (col_id r, col_handle r, col_committed_on r, JSON_parse (col_tags r),
      col_created_at r, col_updated_at r)"

definition activity_fields ::
  "Activity \<Rightarrow> string \<times> string \<times> string \<times> string list option \<times> string \<times> string" where
  "activity_fields a =
     (id' a, handle a, committed_on a, Some (tags a), created_at a, updated_at a)"

subsection \<open>The invariant of the table\<close>

text \<open>
  Every \<open>tags\<close> text in the table can be parsed. The store writes that column in
  \<open>addActivity\<close> and \<open>updateActivity\<close> only, both times as \<open>JSON.stringify\<close> of an
  array of strings, so every state that the operations reach from an empty table has
  the property (\<open>reachable_decodable\<close> below).
\<close>

definition decodable :: "DatabaseService \<Rightarrow> bool" where
  "decodable s \<longleftrightarrow> list_all (\<lambda>r. JSON_parse (col_tags r) \<noteq> None) (activities s)"

inductive reachable :: "DatabaseService \<Rightarrow> bool" where
  fresh: "reachable \<lparr>db = None, isInitialized = False, activities = []\<rparr>"
| init: "reachable s \<Longrightarrow> reachable (snd (initialize env s))"
| add: "reachable s \<Longrightarrow> reachable (snd (addActivity clock s a))"
| update: "reachable s \<Longrightarrow> reachable (snd (updateActivity now s i u))"
| delete: "reachable s \<Longrightarrow> reachable (snd (deleteActivity s i))"

subsection \<open>Example states\<close>

text \<open>
  A store before \<open>initialize\<close>, a store right after it on an empty table, and the
  readings of the clock and of \<open>Math.random\<close> for four calls of \<open>addActivity\<close>.
\<close>

definition fresh0 :: DatabaseService where
  "fresh0 = \<lparr>db = None, isInitialized = False, activities = []\<rparr>"

definition ready0 :: DatabaseService where
  "ready0 = \<lparr>db = Some (SQLiteDatabase ''virtue_tracker.db''), isInitialized = True,
             activities = []\<rparr>"

definition clock1 :: add_env where
  "clock1 = \<lparr>Date_now = ''1704067200000'', Math_random = ''0.4fzyo82mvyr'',
             toISOString = ''2024-01-01T00:00:00.000Z''\<rparr>"

definition clock2 :: add_env where
  "clock2 = \<lparr>Date_now = ''1704067260000'', Math_random = ''0.k1x9c0q7ab2'',
             toISOString = ''2024-01-01T00:01:00.000Z''\<rparr>"

definition clock3 :: add_env where
  "clock3 = \<lparr>Date_now = ''1704067320000'', Math_random = ''0.zz81mfp03de'',
             toISOString = ''2024-01-01T00:02:00.000Z''\<rparr>"

definition clock4 :: add_env where
  "clock4 = \<lparr>Date_now = ''1704067380000'', Math_random = ''0.07hq2lw5xna'',
             toISOString = ''2024-01-01T00:03:00.000Z''\<rparr>"

text \<open>The activity of the spec's example of a partial update, and the store that holds it.\<close>

definition new1 :: NewActivity where
  "new1 = \<lparr>handle = ''h'', committed_on = ''2024-01-01'', tags = [''a'']\<rparr>"

definition id1 :: string where
  "id1 = ''17040672000004fzyo82mv''"

definition act1 :: Activity where
  "act1 = \<lparr>handle = ''h'', committed_on = ''2024-01-01'', tags = [''a''], id' = id1,
            created_at = ''2024-01-01T00:00:00.000Z'',
            updated_at = ''2024-01-01T00:00:00.000Z''\<rparr>"

definition store1 :: DatabaseService where
  "store1 = snd (addActivity clock1 ready0 new1)"

definition only_tags :: Partial_NewActivity where
  "only_tags = \<lparr>p_handle = Absent, p_committed_on = Absent, p_tags = Value [''b'', ''c'']\<rparr>"

text \<open>
  Four activities, committed on the 1st, the 3rd, the 2nd and the 2nd again, added in
  that order.
\<close>

definition store4 :: DatabaseService where
  "store4 =
     snd (addActivity clock4
       (snd (addActivity clock3
         (snd (addActivity clock2 store1
           \<lparr>handle = ''run'', committed_on = ''2024-01-03'', tags = [''exercise'', ''morning'']\<rparr>))
         \<lparr>handle = ''read'', committed_on = ''2024-01-02'', tags = []\<rparr>))
       \<lparr>handle = ''call home'', committed_on = ''2024-01-02'',
        tags = [''family'', [CHR ''a'', dquote, bslash, CHR 0x0A]]\<rparr>)"

text \<open>Two activities with the tags \<open>["a","b"]\<close> and \<open>["b","c"]\<close>.\<close>

definition tagged2 :: DatabaseService where
  "tagged2 =
     snd (addActivity clock2
       (snd (addActivity clock1 ready0
         \<lparr>handle = ''x'', committed_on = ''2024-01-01'', tags = [''a'', ''b'']\<rparr>))
       \<lparr>handle = ''y'', committed_on = ''2024-01-02'', tags = [''b'', ''c'']\<rparr>)"

text \<open>
  A store whose table holds a row while its fields are those of a new process, and two
  answers of the driver: the second \<open>execAsync\<close> rejects, and nothing fails.
\<close>

definition closed1 :: DatabaseService where
  "closed1 = store1\<lparr>db := None, isInitialized := False\<rparr>"

definition index_fails :: init_env where
  "index_fails = \<lparr>openDatabaseAsync = Resolves (Some (SQLiteDatabase ''virtue_tracker.db'')),
                  execAsync = (\<lambda>n. n \<noteq> 1)\<rparr>"

definition all_fine :: init_env where
  "all_fine = \<lparr>openDatabaseAsync = Resolves (Some (SQLiteDatabase ''virtue_tracker.db'')),
               execAsync = (\<lambda>n. True)\<rparr>"

text \<open>
  The spec's partial update of \<open>store1\<close>, five minutes after the activity was added
  and in the millisecond in which it was added, and what each call returns.
\<close>

definition updated1 :: Activity where
  "updated1 = \<lparr>handle = ''h'', committed_on = ''2024-01-01'', tags = [''b'', ''c''], id' = id1,
                created_at = ''2024-01-01T00:00:00.000Z'',
                updated_at = ''2024-01-01T00:05:00.000Z''\<rparr>"

definition same_ms1 :: Activity where
  "same_ms1 = \<lparr>handle = ''h'', committed_on = ''2024-01-01'', tags = [''b'', ''c''], id' = id1,
                created_at = ''2024-01-01T00:00:00.000Z'',
                updated_at = ''2024-01-01T00:00:00.000Z''\<rparr>"

text \<open>The update that the detail screen sends: all three fields.\<close>

definition all_fields :: Partial_NewActivity where
  "all_fields = \<lparr>p_handle = Value ''run 5k'', p_committed_on = Value ''2024-01-04'',
                 p_tags = Value [''exercise'', [CHR ''5'', bslash, CHR ''k'']]\<rparr>"

text \<open>The four activities of \<open>store4\<close>, newest first.\<close>

definition listed4 :: "Activity list" where
  "listed4 =
     [\<lparr>handle = ''run'', committed_on = ''2024-01-03'', tags = [''exercise'', ''morning''],
       id' = ''1704067260000k1x9c0q7a'', created_at = ''2024-01-01T00:01:00.000Z'',
       updated_at = ''2024-01-01T00:01:00.000Z''\<rparr>,
      \<lparr>handle = ''call home'', committed_on = ''2024-01-02'',
       tags = [''family'', [CHR ''a'', dquote, bslash, CHR 0x0A]],
       id' = ''170406738000007hq2lw5x'', created_at = ''2024-01-01T00:03:00.000Z'',
       updated_at = ''2024-01-01T00:03:00.000Z''\<rparr>,
      \<lparr>handle = ''read'', committed_on = ''2024-01-02'', tags = [],
       id' = ''1704067320000zz81mfp03'', created_at = ''2024-01-01T00:02:00.000Z'',
       updated_at = ''2024-01-01T00:02:00.000Z''\<rparr>,
      \<lparr>handle = ''h'', committed_on = ''2024-01-01'', tags = [''a''],
       id' = ''17040672000004fzyo82mv'', created_at = ''2024-01-01T00:00:00.000Z'',
       updated_at = ''2024-01-01T00:00:00.000Z''\<rparr>]"

section \<open>Properties\<close>

subsection \<open>\<open>JSON.parse\<close> reads back what \<open>JSON.stringify\<close> wrote\<close>

lemma hex_digit_hex_char: "k < 16 \<Longrightarrow> hex_digit (hex_char k) = Some k"
proof -
  assume "k < 16"
  then have "k = 0 \<or> k = 1 \<or> k = 2 \<or> k = 3 \<or> k = 4 \<or> k = 5 \<or> k = 6 \<or> k = 7 \<or> k = 8
    \<or> k = 9 \<or> k = 10 \<or> k = 11 \<or> k = 12 \<or> k = 13 \<or> k = 14 \<or> k = 15" by arith
  then show ?thesis
    by (auto simp: hex_char_def hex_digit_def)
qed

lemma hex4_control:
  assumes "(of_char c :: nat) < 0x20"
  shows "hex4 (CHR ''0'') (CHR ''0'') (hex_char (of_char c div 16)) (hex_char (of_char c mod 16)) = Some c"
proof -
  have d: "(of_char c :: nat) div 16 < 16" using assms by simp
  have m: "(of_char c :: nat) mod 16 < 16" by simp
  have z: "hex_digit (CHR ''0'') = Some 0" by (simp add: hex_digit_def)
  show ?thesis
    by (simp add: hex4_def z hex_digit_hex_char [OF d] hex_digit_hex_char [OF m])
qed

lemma parse_chars_escape:
  "parse_chars (escape_char c @ rest) = map_option (\<lambda>(s, r). (c # s, r)) (parse_chars rest)"
proof (cases "(of_char c :: nat) < 0x20")
  case True
  note ctl = this
  show ?thesis
  proof (cases "c = CHR 0x08 \<or> c = CHR 0x09 \<or> c = CHR 0x0A \<or> c = CHR 0x0C \<or> c = CHR 0x0D")
    case True
    then show ?thesis by (auto simp: escape_char_def unescape_def)
  next
    case False
    have nq: "c \<noteq> dquote" "c \<noteq> bslash" using ctl by auto
    show ?thesis using False nq ctl
      by (simp add: escape_char_def hex4_control)
  qed
next
  case False
  then show ?thesis
    by (auto simp: escape_char_def unescape_def)
qed

lemma parse_chars_quote:
  "parse_chars (concat (map escape_char s) @ dquote # rest) = Some (s, rest)"
  by (induction s) (simp_all add: parse_chars_escape)

lemma skip_ws_Cons: "\<not> is_ws c \<Longrightarrow> skip_ws (c # cs) = c # cs"
  by (simp add: skip_ws_def)

lemma parse_elements_quote:
  "parse_elements (quote t @ rest) =
     (case skip_ws rest of
        [] \<Rightarrow> None
      | d # r2 \<Rightarrow>
          if d = CHR '']'' then Some ([t], r2)
          else if d = CHR '','' then
            map_option (\<lambda>(ss, rest). (t # ss, rest)) (parse_elements (skip_ws r2))
          else None)"
  by (subst parse_elements.simps) (simp add: quote_def parse_chars_quote)

lemma quote_Cons: "\<exists>r. quote t = dquote # r"
  by (simp add: quote_def)

lemma parse_elements_join:
  "parse_elements (join_comma (map quote (t # ts)) @ CHR '']'' # rest) = Some (t # ts, rest)"
proof (induction ts arbitrary: t)
  case Nil
  show ?case
    by (simp add: parse_elements_quote skip_ws_Cons is_ws_def)
next
  case (Cons u us)
  obtain r where r: "quote u = dquote # r" using quote_Cons by blast
  have "join_comma (map quote (t # u # us)) @ CHR '']'' # rest
      = quote t @ CHR '','' # (join_comma (map quote (u # us)) @ CHR '']'' # rest)"
    by simp
  moreover have "skip_ws (join_comma (map quote (u # us)) @ CHR '']'' # rest)
      = join_comma (map quote (u # us)) @ CHR '']'' # rest"
    by (cases us) (simp_all add: r skip_ws_Cons is_ws_def)
  ultimately show ?case
    using Cons.IH [of u]
    by (simp only: parse_elements_quote) (simp add: skip_ws_Cons is_ws_def)
qed

lemma JSON_parse_stringify: "JSON_parse (JSON_stringify ts) = Some ts"
proof (cases ts)
  case Nil
  then show ?thesis
    by (simp add: JSON_parse_def JSON_stringify_def skip_ws_Cons is_ws_def skip_ws_def)
next
  case (Cons t us)
  obtain r where r: "quote t = dquote # r" using quote_Cons by blast
  have j: "\<exists>r'. join_comma (quote t # map quote us) = dquote # r'"
    by (cases us) (simp_all add: r)
  then obtain r' where r': "join_comma (quote t # map quote us) = dquote # r'" by blast
  have "parse_elements (dquote # r' @ [CHR '']'']) = Some (t # us, [])"
    using parse_elements_join [of t us "[]"] by (simp add: r')
  then show ?thesis
    using Cons r'
    by (simp add: JSON_parse_def JSON_stringify_def skip_ws_Cons is_ws_def skip_ws_def)
qed

subsection \<open>Reading and writing one activity\<close>

lemma ensure_READY: "READY s \<Longrightarrow> ensureInitialized s = Inr ()"
  by (simp add: READY_def ensureInitialized_def)

lemma ensure_not_READY: "\<not> READY s \<Longrightarrow> ensureInitialized s = Inl NotInitialized"
  by (auto simp: READY_def ensureInitialized_def)

lemma to_activity_stringify:
  "to_activity \<lparr>col_id = i, col_handle = h, col_committed_on = c,
      col_tags = JSON_stringify t, col_created_at = ca, col_updated_at = ua\<rparr>
   = Inr \<lparr>handle = h, committed_on = c, tags = t, id' = i, created_at = ca, updated_at = ua\<rparr>"
  by (simp add: to_activity_def JSON_parse_stringify)

lemma first_by_id_absent:
  "i \<notin> set (map col_id rows) \<Longrightarrow> sql_first_by_id i rows = None"
  by (induction rows) (auto simp: sql_first_by_id_def)

lemma first_by_id_append:
  "sql_first_by_id i (rows @ rest) =
     (case sql_first_by_id i rows of None \<Rightarrow> sql_first_by_id i rest | Some r \<Rightarrow> Some r)"
  by (induction rows) (auto simp: sql_first_by_id_def)

lemma addActivity_READY:
  "READY s \<Longrightarrow> addActivity env s new =
     (if new_id env \<in> set (map col_id (activities s)) then (Inl ConstraintFailed, s)
      else (Inr (new_activity env new), s\<lparr>activities := activities s @ [new_row env new]\<rparr>))"
  by (simp add: addActivity_def ensure_READY sql_insert_def Let_def new_row_def new_activity_def)

lemma to_activity_new_row: "to_activity (new_row env new) = Inr (new_activity env new)"
  by (simp add: new_row_def new_activity_def to_activity_stringify)

lemma getActivityById_READY:
  "READY s \<Longrightarrow> getActivityById s i =
     (case sql_first_by_id i (activities s) of
        None \<Rightarrow> Inr None
      | Some r \<Rightarrow> (case to_activity r of Inl e \<Rightarrow> Inl e | Inr a \<Rightarrow> Inr (Some a)))"
  by (simp add: getActivityById_def ensure_READY)

lemma READY_activities_update [simp]: "READY (s\<lparr>activities := rows\<rparr>) = READY s"
  by (simp add: READY_def)

lemma to_activity_fields:
  "to_activity r = Inr a \<Longrightarrow>
     id' a = col_id r \<and> handle a = col_handle r \<and> committed_on a = col_committed_on r
   \<and> created_at a = col_created_at r \<and> updated_at a = col_updated_at r
   \<and> JSON_parse (col_tags r) = Some (tags a)"
  by (auto simp: to_activity_def split: option.splits)

lemma first_by_id_Some:
  "sql_first_by_id i rows = Some r \<Longrightarrow> col_id r = i \<and> r \<in> set rows"
  by (induction rows) (auto simp: sql_first_by_id_def split: if_splits)

lemma first_by_id_update:
  "sql_first_by_id i (sql_update h c t u i rows) =
     map_option (\<lambda>r. r\<lparr>col_handle := h, col_committed_on := c, col_tags := t, col_updated_at := u\<rparr>)
       (sql_first_by_id i rows)"
  by (induction rows) (auto simp: sql_first_by_id_def sql_update_def)

lemma update_other_rows:
  "filter (\<lambda>r. col_id r \<noteq> i) (sql_update h c t u i rows) = filter (\<lambda>r. col_id r \<noteq> i) rows"
  by (induction rows) (auto simp: sql_update_def)

lemma to_activity_updated:
  assumes "to_activity r = Inr existing"
  shows "to_activity (r\<lparr>col_handle := h, col_committed_on := c, col_tags := JSON_stringify t,
            col_updated_at := u\<rparr>)
         = Inr (existing\<lparr>handle := h, committed_on := c, tags := t, updated_at := u\<rparr>)"
  using assms
  by (auto simp: to_activity_def JSON_parse_stringify split: option.splits)

text \<open>What a call of \<open>updateActivity\<close> that returns an activity has done.\<close>

lemma updateActivity_success:
  assumes "READY s" and "updateActivity now s i updates = (Inr (Some updated), s')"
  obtains r existing h c t where
    "sql_first_by_id i (activities s) = Some r"
    "to_activity r = Inr existing"
    "spread (handle existing) (p_handle updates) = Some h"
    "spread (committed_on existing) (p_committed_on updates) = Some c"
    "spread (tags existing) (p_tags updates) = Some t"
    "updated = existing\<lparr>handle := h, committed_on := c, tags := t, updated_at := now\<rparr>"
    "s' = s\<lparr>activities := sql_update h c (JSON_stringify t) now i (activities s)\<rparr>"
  using assms
  by (auto simp: updateActivity_def ensure_READY getActivityById_READY Let_def spread_def
      split: option.splits sum.splits field.splits)

lemma updateActivity_found:
  assumes "READY s" and "getActivityById s i = Inr (Some existing)"
    and "p_handle updates \<noteq> Undefined" "p_committed_on updates \<noteq> Undefined"
    and "p_tags updates \<noteq> Undefined"
  shows "\<exists>updated s'. updateActivity now s i updates = (Inr (Some updated), s')"
  using assms
  by (auto simp: updateActivity_def ensure_READY Let_def spread_def split: field.splits)

lemma getActivityById_after_update:
  assumes "READY s" and "updateActivity now s i updates = (Inr (Some updated), s')"
  shows "getActivityById s' i = Inr (Some updated)"
proof -
  from assms obtain r existing h c t where
    r: "sql_first_by_id i (activities s) = Some r" and
    e: "to_activity r = Inr existing" and
    u: "updated = existing\<lparr>handle := h, committed_on := c, tags := t, updated_at := now\<rparr>" and
    s': "s' = s\<lparr>activities := sql_update h c (JSON_stringify t) now i (activities s)\<rparr>"
    by (rule updateActivity_success)
  show ?thesis
    using assms(1)
    by (simp add: s' getActivityById_READY first_by_id_update r to_activity_updated [OF e] u)
qed

lemma filter_other_ids_length:
  "length (filter (\<lambda>r. col_id r \<noteq> i) rows) < length rows \<longleftrightarrow> i \<in> set (map col_id rows)"
proof (induction rows)
  case Nil
  then show ?case by simp
next
  case (Cons r rows)
  then show ?case by (auto simp: le_imp_less_Suc)
qed

lemma filter_other_ids_same:
  "i \<notin> set (map col_id rows) \<Longrightarrow> filter (\<lambda>r. col_id r \<noteq> i) rows = rows"
  by (induction rows) auto

subsection \<open>Listings\<close>

lemma mset_order_by_desc: "mset (order_by_desc rows) = mset rows"
  by (simp add: order_by_desc_def)

lemma set_order_by_desc: "set (order_by_desc rows) = set rows"
  by (simp add: order_by_desc_def)

lemma sorted_order_by_desc:
  "sorted_wrt (\<lambda>r r'. sort_key_of r' \<le> sort_key_of r) (order_by_desc rows)"
proof -
  have "sorted (map sort_key_of (sort_key sort_key_of rows))"
    by (rule sorted_sort_key)
  then have "sorted_wrt (\<lambda>r r'. sort_key_of r \<le> sort_key_of r') (sort_key sort_key_of rows)"
    by (simp add: sorted_wrt_map)
  then show ?thesis
    by (simp add: order_by_desc_def sorted_wrt_rev)
qed

lemma order_by_desc_filter:
  "order_by_desc (filter P rows) = filter P (order_by_desc rows)"
  by (simp add: order_by_desc_def filter_sort flip: rev_filter)

lemma map_rows_Inr_iff:
  "map_rows rows = Inr acts \<longleftrightarrow> map to_activity rows = map Inr acts"
proof (induction rows arbitrary: acts)
  case Nil
  then show ?case by auto
next
  case (Cons r rows)
  show ?case
  proof (cases "to_activity r")
    case (Inl e)
    then show ?thesis by (cases acts) auto
  next
    case (Inr a)
    show ?thesis
    proof (cases "map_rows rows")
      case (Inl e)
      with Cons[of "tl acts"] Inr show ?thesis by (cases acts) auto
    next
      case (Inr as)
      with Cons \<open>to_activity r = Inr a\<close> show ?thesis by (cases acts) auto
    qed
  qed
qed

lemma map_rows_decodable:
  "list_all (\<lambda>r. JSON_parse (col_tags r) \<noteq> None) rows \<Longrightarrow> \<exists>acts. map_rows rows = Inr acts"
  by (induction rows) (auto simp: to_activity_def split: option.splits)

lemma map_rows_filter:
  assumes "map_rows rows = Inr acts"
    and "\<And>r a. to_activity r = Inr a \<Longrightarrow> P r = Q a"
  shows "map_rows (filter P rows) = Inr (filter Q acts)"
  using assms(1)
proof (induction rows arbitrary: acts)
  case Nil
  then show ?case by simp
next
  case (Cons r rows)
  from Cons.prems obtain a as where
    a: "to_activity r = Inr a" and as: "map_rows rows = Inr as" and acts: "acts = a # as"
    by (auto split: sum.splits)
  show ?case
    using Cons.IH [OF as] assms(2) [OF a] by (simp add: a as acts)
qed

lemma map_rows_keys:
  "map_rows rows = Inr acts \<Longrightarrow>
     map (\<lambda>a. (committed_on a, created_at a)) acts = map sort_key_of rows"
proof (induction rows arbitrary: acts)
  case Nil
  then show ?case by simp
next
  case (Cons r rows)
  from Cons.prems obtain a as where
    a: "to_activity r = Inr a" and as: "map_rows rows = Inr as" and acts: "acts = a # as"
    by (auto split: sum.splits)
  show ?case
    using Cons.IH [OF as] to_activity_fields [OF a] by (simp add: acts)
qed

lemma map_rows_columns:
  "map_rows rows = Inr acts \<Longrightarrow> map activity_fields acts = map row_columns rows"
proof (induction rows arbitrary: acts)
  case Nil
  then show ?case by simp
next
  case (Cons r rows)
  from Cons.prems obtain a as where
    a: "to_activity r = Inr a" and as: "map_rows rows = Inr as" and acts: "acts = a # as"
    by (auto split: sum.splits)
  show ?case
    using Cons.IH [OF as] to_activity_fields [OF a]
    by (simp add: acts activity_fields_def row_columns_def)
qed

lemma newest_first_key:
  "newest_first a b \<longleftrightarrow> (committed_on b, created_at b) \<le> (committed_on a, created_at a)"
  by (auto simp: newest_first_def less_eq_prod_def)

lemma map_rows_sorted:
  assumes "map_rows (order_by_desc rows) = Inr acts"
  shows "sorted_wrt newest_first acts"
proof -
  have "sorted_wrt (\<lambda>k k'. k' \<le> k) (map sort_key_of (order_by_desc rows))"
    using sorted_order_by_desc [of rows] by (simp add: sorted_wrt_map)
  then have "sorted_wrt (\<lambda>k k'. k' \<le> k) (map (\<lambda>a. (committed_on a, created_at a)) acts)"
    by (simp add: map_rows_keys [OF assms])
  then show ?thesis
    by (simp add: sorted_wrt_map newest_first_key [abs_def])
qed

lemma decodable_order_by_desc:
  "decodable s \<Longrightarrow> list_all (\<lambda>r. JSON_parse (col_tags r) \<noteq> None) (order_by_desc (activities s))"
  by (simp add: decodable_def list_all_iff set_order_by_desc)

subsection \<open>Tags, and the invariant\<close>

lemma set_fold_set_add: "set (fold set_add xs acc) = set acc \<union> set xs"
  by (induction xs arbitrary: acc) (auto simp: set_add_def)

lemma distinct_fold_set_add: "distinct acc \<Longrightarrow> distinct (fold set_add xs acc)"
  by (induction xs arbitrary: acc) (auto simp: set_add_def)

lemma collect_tags_result:
  assumes "list_all (\<lambda>t. JSON_parse t \<noteq> None) texts" and "distinct acc"
  shows "\<exists>allTags. collect_tags texts acc = Inr allTags \<and> distinct allTags
       \<and> set allTags = set acc \<union> {tag. \<exists>t parsed. t \<in> set texts \<and> JSON_parse t = Some parsed
                                         \<and> tag \<in> set parsed}"
  using assms
proof (induction texts arbitrary: acc)
  case Nil
  then show ?case by simp
next
  case (Cons t texts)
  from Cons.prems obtain parsed where p: "JSON_parse t = Some parsed" by auto
  have "list_all (\<lambda>t. JSON_parse t \<noteq> None) texts" using Cons.prems by simp
  moreover have "distinct (fold set_add parsed acc)"
    using Cons.prems by (simp add: distinct_fold_set_add)
  ultimately obtain allTags where
    r: "collect_tags texts (fold set_add parsed acc) = Inr allTags" and
    d: "distinct allTags" and
    s: "set allTags = set (fold set_add parsed acc)
          \<union> {tag. \<exists>t parsed. t \<in> set texts \<and> JSON_parse t = Some parsed \<and> tag \<in> set parsed}"
    using Cons.IH by blast
  have "collect_tags (t # texts) acc = Inr allTags" by (simp add: p r)
  moreover have "set allTags = set acc
      \<union> {tag. \<exists>t' parsed. t' \<in> set (t # texts) \<and> JSON_parse t' = Some parsed \<and> tag \<in> set parsed}"
    using p by (auto simp: s set_fold_set_add)
  ultimately show ?case using d by blast
qed

lemma decodable_activities [simp]:
  "decodable (s\<lparr>activities := rows\<rparr>) = list_all (\<lambda>r. JSON_parse (col_tags r) \<noteq> None) rows"
  by (simp add: decodable_def)

lemma decodable_initialize: "decodable s \<Longrightarrow> decodable (snd (initialize env s))"
  by (auto simp: initialize_def initialize_try_def createTables_def decodable_def Let_def
      split: open_result.splits option.splits if_splits)

lemma decodable_addActivity: "decodable s \<Longrightarrow> decodable (snd (addActivity env s new))"
  by (auto simp: addActivity_def sql_insert_def Let_def decodable_def JSON_parse_stringify
      split: sum.splits)

lemma decodable_sql_update:
  "list_all (\<lambda>r. JSON_parse (col_tags r) \<noteq> None) rows \<Longrightarrow>
   list_all (\<lambda>r. JSON_parse (col_tags r) \<noteq> None) (sql_update h c (JSON_stringify t) u i rows)"
  by (induction rows) (auto simp: sql_update_def JSON_parse_stringify)

lemma decodable_updateActivity: "decodable s \<Longrightarrow> decodable (snd (updateActivity now s i u))"
  by (auto simp: updateActivity_def Let_def decodable_def decodable_sql_update [simplified]
      split: sum.splits option.splits)

lemma decodable_deleteActivity: "decodable s \<Longrightarrow> decodable (snd (deleteActivity s i))"
  by (auto simp: deleteActivity_def sql_delete_def Let_def decodable_def list_all_iff
      split: sum.splits)

lemma reachable_decodable: "reachable s \<Longrightarrow> decodable s"
proof (induction rule: reachable.induct)
  case fresh
  show ?case by (simp add: decodable_def)
next
  case (init s env)
  then show ?case by (simp add: decodable_initialize)
next
  case (add s clock a)
  then show ?case by (simp add: decodable_addActivity)
next
  case (update s now i u)
  then show ?case by (simp add: decodable_updateActivity)
next
  case (delete s i)
  then show ?case by (simp add: decodable_deleteActivity)
qed

subsection \<open>\<open>initialize\<close>\<close>

lemma initialize_READY: "READY s \<Longrightarrow> initialize env s = (Inr (), s)"
  by (simp add: initialize_def READY_def)

lemma initialize_fails:
  assumes "\<not> READY s" and "init_fails env"
  shows "\<exists>e. initialize env s = (Inl e, s\<lparr>db := None, isInitialized := False\<rparr>)"
proof (cases "openDatabaseAsync env")
  case Rejects
  then show ?thesis
    using assms(1) by (simp add: initialize_def initialize_try_def READY_def)
next
  case (Resolves h)
  show ?thesis
  proof (cases h)
    case None
    then show ?thesis
      using assms(1) Resolves by (simp add: initialize_def initialize_try_def READY_def)
  next
    case (Some d)
    then have "\<not> execAsync env 0 \<or> \<not> execAsync env 1 \<or> \<not> execAsync env 2"
      using assms(2) Resolves by (simp add: init_fails_def)
    then show ?thesis
      using assms(1) Resolves Some
      by (auto simp: initialize_def initialize_try_def createTables_def READY_def)
  qed
qed

lemma initialize_succeeds:
  assumes "\<not> READY s" and "\<not> init_fails env"
  shows "\<exists>h. initialize env s = (Inr (), s\<lparr>db := Some h, isInitialized := True\<rparr>)"
proof -
  from assms(2) obtain d where d: "openDatabaseAsync env = Resolves (Some d)"
    and e: "execAsync env 0" "execAsync env 1" "execAsync env 2"
    by (cases "openDatabaseAsync env") (auto simp: init_fails_def)
  have "initialize env s = (Inr (), s\<lparr>db := Some d, isInitialized := True\<rparr>)"
    using assms(1) e
    by (auto simp: initialize_def initialize_try_def createTables_def READY_def d)
  then show ?thesis by blast
qed

section \<open>The claims\<close>

text \<open>
  C1. On a READY store, \<open>addActivity\<close> followed by \<open>getActivityById\<close> with the id
  that it returned yields the activity that was added: the same handle, committed_on
  and tags, and \<open>created_at = updated_at\<close>. The call of \<open>addActivity\<close> returns
  whenever the id that it generates is not in the table yet; the only way it fails on
  a READY store is the primary key rejecting that id.
\<close>

theorem add_then_getById:
  assumes "READY s"
  shows "(new_id env \<notin> set (map col_id (activities s))
            \<longrightarrow> (\<exists>a s'. addActivity env s new = (Inr a, s')))
       \<and> (\<forall>a s'. addActivity env s new = (Inr a, s') \<longrightarrow>
             READY s'
           \<and> getActivityById s' (id' a) = Inr (Some a)
           \<and> handle a = handle new \<and> committed_on a = committed_on new \<and> tags a = tags new
           \<and> created_at a = updated_at a)"
proof (cases "new_id env \<in> set (map col_id (activities s))")
  case True
  then show ?thesis
    using assms by (simp add: addActivity_READY)
next
  case False
  then have none: "sql_first_by_id (new_id env) (activities s) = None"
    by (rule first_by_id_absent)
  have add: "addActivity env s new =
      (Inr (new_activity env new), s\<lparr>activities := activities s @ [new_row env new]\<rparr>)"
    using assms False by (simp add: addActivity_READY)
  have get: "getActivityById (s\<lparr>activities := activities s @ [new_row env new]\<rparr>) (new_id env)
      = Inr (Some (new_activity env new))"
    using assms
    by (simp add: getActivityById_READY first_by_id_append none to_activity_new_row)
       (simp add: sql_first_by_id_def new_row_def to_activity_new_row [unfolded new_row_def])
  have flds: "id' (new_activity env new) = new_id env"
    "handle (new_activity env new) = handle new"
    "committed_on (new_activity env new) = committed_on new"
    "tags (new_activity env new) = tags new"
    "created_at (new_activity env new) = updated_at (new_activity env new)"
    by (simp_all add: new_activity_def)
  show ?thesis
    using assms by (simp add: add get flds)
qed

theorem add_then_getById_witness:
  "READY ready0
 \<and> new_id clock1 \<notin> set (map col_id (activities ready0))
 \<and> addActivity clock1 ready0 new1 = (Inr act1, store1)
 \<and> getActivityById store1 (id' act1) = Inr (Some act1)
 \<and> handle act1 = handle new1 \<and> committed_on act1 = committed_on new1 \<and> tags act1 = tags new1
 \<and> created_at act1 = updated_at act1"
proof -
  have r: "READY ready0" by (simp add: READY_def ready0_def)
  have f: "new_id clock1 \<notin> set (map col_id (activities ready0))" by (simp add: ready0_def)
  have a: "addActivity clock1 ready0 new1 = (Inr act1, store1)" by code_simp
  have "\<forall>a s'. addActivity clock1 ready0 new1 = (Inr a, s') \<longrightarrow>
             READY s'
           \<and> getActivityById s' (id' a) = Inr (Some a)
           \<and> handle a = handle new1 \<and> committed_on a = committed_on new1 \<and> tags a = tags new1
           \<and> created_at a = updated_at a"
    using add_then_getById [OF r, of clock1 new1] by (rule conjunct2)
  then have "getActivityById store1 (id' act1) = Inr (Some act1)
           \<and> handle act1 = handle new1 \<and> committed_on act1 = committed_on new1
           \<and> tags act1 = tags new1 \<and> created_at act1 = updated_at act1"
    using a by blast
  with r f a show ?thesis by (intro conjI) blast+
qed

text \<open>
  C2. On a READY store whose rows can all be read, \<open>getActivities\<close> returns every
  stored activity exactly once: the returned activities, taken field by field, are the
  rows of the table, taken column by column with the tags text parsed, as multisets.
  They are ordered by committed_on descending and, where committed_on agrees, by
  created_at descending: of two activities with the same committed_on, the one with
  the greater created_at comes first.
\<close>

theorem getActivities_newest_first:
  assumes "READY s" and "decodable s"
  shows "\<exists>acts. getActivities s = Inr acts
       \<and> mset (map activity_fields acts) = mset (map row_columns (activities s))
       \<and> mset (map Inr acts) = mset (map to_activity (activities s))
       \<and> sorted_wrt newest_first acts
       \<and> (\<forall>m n. m < n \<and> n < length acts \<and> committed_on (acts ! m) = committed_on (acts ! n)
             \<longrightarrow> created_at (acts ! n) \<le> created_at (acts ! m))"
proof -
  obtain acts where acts: "map_rows (order_by_desc (activities s)) = Inr acts"
    using map_rows_decodable [OF decodable_order_by_desc [OF assms(2)]] by blast
  have get: "getActivities s = Inr acts"
    using assms(1) by (simp add: getActivities_def ensure_READY acts)
  have "map activity_fields acts = map row_columns (order_by_desc (activities s))"
    using acts by (rule map_rows_columns)
  then have cols: "mset (map activity_fields acts) = mset (map row_columns (activities s))"
    by (simp add: mset_order_by_desc)
  have "map Inr acts = map to_activity (order_by_desc (activities s))"
    using acts by (simp add: map_rows_Inr_iff)
  then have all: "mset (map Inr acts) = mset (map to_activity (activities s))"
    by (simp add: mset_order_by_desc)
  have srt: "sorted_wrt newest_first acts"
    using acts by (rule map_rows_sorted)
  have "\<forall>m n. m < n \<and> n < length acts \<and> committed_on (acts ! m) = committed_on (acts ! n)
             \<longrightarrow> created_at (acts ! n) \<le> created_at (acts ! m)"
  proof (intro allI impI)
    fix m n
    assume a: "m < n \<and> n < length acts \<and> committed_on (acts ! m) = committed_on (acts ! n)"
    then have "newest_first (acts ! m) (acts ! n)"
      using srt by (simp add: sorted_wrt_iff_nth_less)
    with a show "created_at (acts ! n) \<le> created_at (acts ! m)"
      by (auto simp: newest_first_def)
  qed
  with get cols all srt show ?thesis by blast
qed

theorem getActivities_newest_first_witness:
  "READY store4 \<and> decodable store4
 \<and> getActivities store4 = Inr listed4
 \<and> mset (map activity_fields listed4) = mset (map row_columns (activities store4))
 \<and> mset (map Inr listed4) = mset (map to_activity (activities store4))
 \<and> sorted_wrt newest_first listed4"
proof -
  have r: "READY store4" by code_simp
  have d: "decodable store4" by code_simp
  have e: "getActivities store4 = Inr listed4" by code_simp
  obtain acts where g: "getActivities store4 = Inr acts"
    and c: "mset (map activity_fields acts) = mset (map row_columns (activities store4))"
    and m: "mset (map Inr acts) = mset (map to_activity (activities store4))"
    and w: "sorted_wrt newest_first acts"
    using getActivities_newest_first [OF r d] by blast
  from g e have k: "acts = listed4" by simp
  show ?thesis
    using c m w by (intro conjI r d e) (simp_all only: k)
qed

text \<open>
  C3, as amended. On a READY store, \<open>updateActivity\<close> with an id that
  \<open>getActivityById\<close> finds and an update none of whose fields is \<open>undefined\<close>
  returns an activity. Whenever it returns one, each of handle, committed_on and tags
  is the supplied value where one was supplied and the prior value otherwise; id and
  created_at are the prior ones; updated_at is the time read during the call; the
  activity is what \<open>getActivityById\<close> reads afterwards; and the rows with other ids
  are as they were. The code does not compare the two timestamps:
  \<open>updated_at > created_at\<close> holds exactly when the time read is later than
  created_at.
\<close>

theorem update_changes_supplied_fields:
  assumes "READY s"
  shows "(\<forall>existing. getActivityById s i = Inr (Some existing)
            \<and> p_handle updates \<noteq> Undefined \<and> p_committed_on updates \<noteq> Undefined
            \<and> p_tags updates \<noteq> Undefined
          \<longrightarrow> (\<exists>updated s'. updateActivity now s i updates = (Inr (Some updated), s')))
       \<and> (\<forall>updated s'. updateActivity now s i updates = (Inr (Some updated), s') \<longrightarrow>
            (\<exists>existing. getActivityById s i = Inr (Some existing)
               \<and> handle updated =
                   (case p_handle updates of Value h \<Rightarrow> h | _ \<Rightarrow> handle existing)
               \<and> committed_on updated =
                   (case p_committed_on updates of Value c \<Rightarrow> c | _ \<Rightarrow> committed_on existing)
               \<and> tags updated =
                   (case p_tags updates of Value t \<Rightarrow> t | _ \<Rightarrow> tags existing)
               \<and> id' updated = id' existing \<and> created_at updated = created_at existing
               \<and> updated_at updated = now
               \<and> (created_at updated < updated_at updated \<longleftrightarrow> created_at existing < now))
            \<and> getActivityById s' i = Inr (Some updated)
            \<and> filter (\<lambda>r. col_id r \<noteq> i) (activities s')
                = filter (\<lambda>r. col_id r \<noteq> i) (activities s)
            \<and> READY s')"
proof (intro conjI allI impI)
  fix existing
  assume "getActivityById s i = Inr (Some existing)
            \<and> p_handle updates \<noteq> Undefined \<and> p_committed_on updates \<noteq> Undefined
            \<and> p_tags updates \<noteq> Undefined"
  then show "\<exists>updated s'. updateActivity now s i updates = (Inr (Some updated), s')"
    using assms updateActivity_found by blast
next
  fix updated s'
  assume upd: "updateActivity now s i updates = (Inr (Some updated), s')"
  from assms upd obtain r existing h c t where
    r: "sql_first_by_id i (activities s) = Some r" and
    e: "to_activity r = Inr existing" and
    h: "spread (handle existing) (p_handle updates) = Some h" and
    c: "spread (committed_on existing) (p_committed_on updates) = Some c" and
    t: "spread (tags existing) (p_tags updates) = Some t" and
    u: "updated = existing\<lparr>handle := h, committed_on := c, tags := t, updated_at := now\<rparr>" and
    s': "s' = s\<lparr>activities := sql_update h c (JSON_stringify t) now i (activities s)\<rparr>"
    by (rule updateActivity_success)
  have get: "getActivityById s i = Inr (Some existing)"
    using assms by (simp add: getActivityById_READY r e)
  have "handle updated = (case p_handle updates of Value h \<Rightarrow> h | _ \<Rightarrow> handle existing)"
    using h by (simp add: u spread_def split: field.splits)
  moreover have "committed_on updated =
      (case p_committed_on updates of Value c \<Rightarrow> c | _ \<Rightarrow> committed_on existing)"
    using c by (simp add: u spread_def split: field.splits)
  moreover have "tags updated = (case p_tags updates of Value t \<Rightarrow> t | _ \<Rightarrow> tags existing)"
    using t by (simp add: u spread_def split: field.splits)
  moreover have "id' updated = id' existing" "created_at updated = created_at existing"
    "updated_at updated = now"
    by (simp_all add: u)
  ultimately show "\<exists>existing. getActivityById s i = Inr (Some existing)
               \<and> handle updated =
                   (case p_handle updates of Value h \<Rightarrow> h | _ \<Rightarrow> handle existing)
               \<and> committed_on updated =
                   (case p_committed_on updates of Value c \<Rightarrow> c | _ \<Rightarrow> committed_on existing)
               \<and> tags updated =
                   (case p_tags updates of Value t \<Rightarrow> t | _ \<Rightarrow> tags existing)
               \<and> id' updated = id' existing \<and> created_at updated = created_at existing
               \<and> updated_at updated = now
               \<and> (created_at updated < updated_at updated \<longleftrightarrow> created_at existing < now)"
    using get by simp
  show "getActivityById s' i = Inr (Some updated)"
    using assms upd by (rule getActivityById_after_update)
  show "filter (\<lambda>r. col_id r \<noteq> i) (activities s')
                = filter (\<lambda>r. col_id r \<noteq> i) (activities s)"
    by (simp add: s' update_other_rows)
  show "READY s'" using assms by (simp add: s')
qed

text \<open>
  The spec's example: after \<open>add({handle:"h", committed_on:"2024-01-01", tags:["a"]})\<close>,
  \<open>update(id, {tags:["b","c"]})\<close> five minutes later.
\<close>

theorem update_changes_supplied_fields_witness:
  "READY store1
 \<and> getActivityById store1 id1 = Inr (Some act1)
 \<and> p_handle only_tags \<noteq> Undefined \<and> p_committed_on only_tags \<noteq> Undefined
 \<and> p_tags only_tags \<noteq> Undefined
 \<and> fst (updateActivity ''2024-01-01T00:05:00.000Z'' store1 id1 only_tags) = Inr (Some updated1)
 \<and> handle updated1 = ''h'' \<and> committed_on updated1 = ''2024-01-01''
 \<and> tags updated1 = [''b'', ''c'']
 \<and> created_at updated1 < updated_at updated1
 \<and> getActivityById (snd (updateActivity ''2024-01-01T00:05:00.000Z'' store1 id1 only_tags)) id1
      = Inr (Some updated1)"
proof -
  have r: "READY store1" by code_simp
  have g: "getActivityById store1 id1 = Inr (Some act1)" by code_simp
  have p: "p_handle only_tags \<noteq> Undefined \<and> p_committed_on only_tags \<noteq> Undefined
       \<and> p_tags only_tags \<noteq> Undefined"
    by (simp add: only_tags_def)
  have u: "fst (updateActivity ''2024-01-01T00:05:00.000Z'' store1 id1 only_tags)
      = Inr (Some updated1)"
    by code_simp
  then have u': "updateActivity ''2024-01-01T00:05:00.000Z'' store1 id1 only_tags
      = (Inr (Some updated1), snd (updateActivity ''2024-01-01T00:05:00.000Z'' store1 id1 only_tags))"
    by (simp add: prod_eq_iff)
  have "getActivityById (snd (updateActivity ''2024-01-01T00:05:00.000Z'' store1 id1 only_tags)) id1
      = Inr (Some updated1)"
    using update_changes_supplied_fields [OF r, of id1 only_tags "''2024-01-01T00:05:00.000Z''"] u'
    by blast
  moreover have "handle updated1 = ''h'' \<and> committed_on updated1 = ''2024-01-01''
      \<and> tags updated1 = [''b'', ''c''] \<and> created_at updated1 < updated_at updated1"
    by (simp add: updated1_def)
  ultimately show ?thesis using r g p u by blast
qed

text \<open>
  C3 as the spec states it fails: when the update reads the clock in the millisecond in
  which the activity was added (or after the clock was set back), \<open>updated_at\<close> is not
  greater than \<open>created_at\<close>.
\<close>

theorem update_in_same_millisecond_counterexample:
  "READY store1
 \<and> getActivityById store1 id1 = Inr (Some act1)
 \<and> fst (updateActivity (created_at act1) store1 id1 only_tags) = Inr (Some same_ms1)
 \<and> \<not> created_at same_ms1 < updated_at same_ms1"
proof -
  have "READY store1" by code_simp
  moreover have "getActivityById store1 id1 = Inr (Some act1)" by code_simp
  moreover have "fst (updateActivity (created_at act1) store1 id1 only_tags) = Inr (Some same_ms1)"
    by code_simp
  moreover have "\<not> created_at same_ms1 < updated_at same_ms1"
    by (simp add: same_ms1_def)
  ultimately show ?thesis by blast
qed

text \<open>
  C4. Each of the seven data operations, called on a store that is not READY, fails
  with the error of \<open>ensureInitialized\<close> and leaves the state as it was.
\<close>

theorem not_ready_is_refused:
  assumes "\<not> READY s"
  shows "addActivity env s new = (Inl NotInitialized, s)
       \<and> getActivities s = Inl NotInitialized
       \<and> getActivitiesByDateRange s startDate endDate = Inl NotInitialized
       \<and> getActivityById s i = Inl NotInitialized
       \<and> updateActivity now s i updates = (Inl NotInitialized, s)
       \<and> deleteActivity s i = (Inl NotInitialized, s)
       \<and> getAllTags s = Inl NotInitialized"
  using assms
  by (simp add: addActivity_def getActivities_def getActivitiesByDateRange_def
      getActivityById_def updateActivity_def deleteActivity_def getAllTags_def ensure_not_READY)

theorem not_ready_is_refused_witness:
  "\<not> READY closed1
 \<and> addActivity clock2 closed1 new1 = (Inl NotInitialized, closed1)
 \<and> getActivities closed1 = Inl NotInitialized
 \<and> getActivitiesByDateRange closed1 ''2024-01-01'' ''2024-01-31'' = Inl NotInitialized
 \<and> getActivityById closed1 id1 = Inl NotInitialized
 \<and> updateActivity ''2024-01-01T00:05:00.000Z'' closed1 id1 only_tags
      = (Inl NotInitialized, closed1)
 \<and> deleteActivity closed1 id1 = (Inl NotInitialized, closed1)
 \<and> getAllTags closed1 = Inl NotInitialized
 \<and> getActivities fresh0 = Inl NotInitialized"
proof -
  have c: "\<not> READY closed1" by (simp add: closed1_def READY_def)
  have f: "\<not> READY fresh0" by (simp add: fresh0_def READY_def)
  show ?thesis
    using c not_ready_is_refused [OF c, of clock2 new1 "''2024-01-01''" "''2024-01-31''" id1
        "''2024-01-01T00:05:00.000Z''" only_tags]
      not_ready_is_refused [OF f]
    by blast
qed

text \<open>
  C5. On a READY store, for an id that no row has, \<open>getActivityById\<close> returns \<open>null\<close>
  (a result, not an error), and \<open>updateActivity\<close> returns \<open>null\<close> and leaves the state
  as it was.
\<close>

theorem absent_id_is_not_found:
  assumes "READY s" and "i \<notin> set (map col_id (activities s))"
  shows "getActivityById s i = Inr None \<and> updateActivity now s i updates = (Inr None, s)"
  using assms
  by (simp add: updateActivity_def ensure_READY getActivityById_READY first_by_id_absent)

theorem absent_id_is_not_found_witness:
  "READY store4 \<and> ''nonexistent-id'' \<notin> set (map col_id (activities store4))
 \<and> getActivityById store4 ''nonexistent-id'' = Inr None
 \<and> updateActivity ''2024-01-01T00:05:00.000Z'' store4 ''nonexistent-id'' all_fields
      = (Inr None, store4)"
proof -
  have r: "READY store4" by code_simp
  have a: "''nonexistent-id'' \<notin> set (map col_id (activities store4))" by code_simp
  show ?thesis
    using r a absent_id_is_not_found [OF r a, of "''2024-01-01T00:05:00.000Z''" all_fields]
    by blast
qed

text \<open>
  C6. On a READY store whose rows can all be read, \<open>getActivitiesByDateRange\<close>
  returns exactly the activities of \<open>getActivities\<close> whose committed_on lies between
  the two bounds, both included, in the order in which \<open>getActivities\<close> lists them.
  On any READY store, an inverted range gives the empty list and no error; the bounds
  are not checked.
\<close>

theorem getActivitiesByDateRange_filters:
  assumes "READY s"
  shows "(decodable s \<longrightarrow>
            (\<exists>acts. getActivities s = Inr acts
               \<and> getActivitiesByDateRange s startDate endDate
                   = Inr (filter (\<lambda>a. startDate \<le> committed_on a \<and> committed_on a \<le> endDate)
                           acts)))
       \<and> (endDate < startDate \<longrightarrow> getActivitiesByDateRange s startDate endDate = Inr [])"
proof (intro conjI impI)
  assume d: "decodable s"
  obtain acts where acts: "map_rows (order_by_desc (activities s)) = Inr acts"
    using map_rows_decodable [OF decodable_order_by_desc [OF d]] by blast
  have get: "getActivities s = Inr acts"
    using assms by (simp add: getActivities_def ensure_READY acts)
  have "map_rows (filter (\<lambda>r. startDate \<le> col_committed_on r \<and> col_committed_on r \<le> endDate)
          (order_by_desc (activities s)))
        = Inr (filter (\<lambda>a. startDate \<le> committed_on a \<and> committed_on a \<le> endDate) acts)"
    using acts by (rule map_rows_filter) (simp add: to_activity_fields)
  then have "getActivitiesByDateRange s startDate endDate
           = Inr (filter (\<lambda>a. startDate \<le> committed_on a \<and> committed_on a \<le> endDate) acts)"
    using assms
    by (simp add: getActivitiesByDateRange_def ensure_READY where_range_def order_by_desc_filter)
  with get show "\<exists>acts. getActivities s = Inr acts
               \<and> getActivitiesByDateRange s startDate endDate
                   = Inr (filter (\<lambda>a. startDate \<le> committed_on a \<and> committed_on a \<le> endDate)
                           acts)"
    by blast
next
  assume "endDate < startDate"
  then have "where_range startDate endDate (activities s) = []"
    by (auto simp: where_range_def filter_empty_conv)
  then show "getActivitiesByDateRange s startDate endDate = Inr []"
    using assms by (simp add: getActivitiesByDateRange_def ensure_READY order_by_desc_def)
qed

theorem getActivitiesByDateRange_filters_witness:
  "READY store4 \<and> decodable store4
 \<and> (\<exists>acts. getActivities store4 = Inr acts
       \<and> getActivitiesByDateRange store4 ''2024-01-02'' ''2024-01-02''
           = Inr (filter (\<lambda>a. ''2024-01-02'' \<le> committed_on a \<and> committed_on a \<le> ''2024-01-02'')
                   acts))
 \<and> map_sum id (map handle) (getActivitiesByDateRange store4 ''2024-01-02'' ''2024-01-02'')
      = Inr [''call home'', ''read'']
 \<and> ''2024-01-02'' < ''2024-01-03''
 \<and> getActivitiesByDateRange store4 ''2024-01-03'' ''2024-01-02'' = Inr []"
proof -
  have r: "READY store4" by code_simp
  have d: "decodable store4" by code_simp
  have h: "map_sum id (map handle) (getActivitiesByDateRange store4 ''2024-01-02'' ''2024-01-02'')
      = Inr [''call home'', ''read'']"
    by code_simp
  have l: "''2024-01-02'' < ''2024-01-03''" by simp
  note t = getActivitiesByDateRange_filters [OF r]
  have a: "\<exists>acts. getActivities store4 = Inr acts
       \<and> getActivitiesByDateRange store4 ''2024-01-02'' ''2024-01-02''
           = Inr (filter (\<lambda>a. ''2024-01-02'' \<le> committed_on a \<and> committed_on a \<le> ''2024-01-02'')
                   acts)"
    using t [of "''2024-01-02''" "''2024-01-02''"] d by blast
  have e: "getActivitiesByDateRange store4 ''2024-01-03'' ''2024-01-02'' = Inr []"
    using t [of "''2024-01-03''" "''2024-01-02''"] l by blast
  show ?thesis
    by (intro conjI r d a h l e)
qed

text \<open>
  C7. On a READY store whose rows can all be read, \<open>getAllTags\<close> returns the tags of
  all stored activities, each once, in ascending lexicographic order. For two
  activities with the tags \<open>["a","b"]\<close> and \<open>["b","c"]\<close> that is \<open>["a","b","c"]\<close>
  (the witness).
\<close>

theorem getAllTags_sorted_distinct:
  assumes "READY s" and "decodable s"
  shows "\<exists>ts. getAllTags s = Inr ts \<and> sorted ts \<and> distinct ts
       \<and> set ts = {tag. \<exists>r a. r \<in> set (activities s) \<and> to_activity r = Inr a \<and> tag \<in> set (tags a)}"
proof -
  have "list_all (\<lambda>t. JSON_parse t \<noteq> None) (sql_distinct_tags (activities s))"
    using assms(2) by (auto simp: decodable_def sql_distinct_tags_def list_all_iff)
  then obtain allTags where
    c: "collect_tags (sql_distinct_tags (activities s)) [] = Inr allTags" and
    d: "distinct allTags" and
    s: "set allTags = set [] \<union> {tag. \<exists>t parsed. t \<in> set (sql_distinct_tags (activities s))
           \<and> JSON_parse t = Some parsed \<and> tag \<in> set parsed}"
    using collect_tags_result [of "sql_distinct_tags (activities s)" "[]"] by auto
  have get: "getAllTags s = Inr (sort allTags)"
    using assms(1) by (simp add: getAllTags_def ensure_READY c)
  have "set (sort allTags)
      = {tag. \<exists>r a. r \<in> set (activities s) \<and> to_activity r = Inr a \<and> tag \<in> set (tags a)}"
    by (auto simp: s sql_distinct_tags_def to_activity_def split: option.splits)
  with get d show ?thesis by simp
qed

theorem getAllTags_sorted_distinct_witness:
  "READY tagged2 \<and> decodable tagged2
 \<and> map_sum id (map tags) (getActivities tagged2) = Inr [[''b'', ''c''], [''a'', ''b'']]
 \<and> getAllTags tagged2 = Inr [''a'', ''b'', ''c'']
 \<and> (\<exists>ts. getAllTags tagged2 = Inr ts \<and> sorted ts \<and> distinct ts
       \<and> set ts = {tag. \<exists>r a. r \<in> set (activities tagged2) \<and> to_activity r = Inr a
                         \<and> tag \<in> set (tags a)})"
proof -
  have r: "READY tagged2" by code_simp
  have d: "decodable tagged2" by code_simp
  have l: "map_sum id (map tags) (getActivities tagged2) = Inr [[''b'', ''c''], [''a'', ''b'']]"
    by code_simp
  have g: "getAllTags tagged2 = Inr [''a'', ''b'', ''c'']" by code_simp
  show ?thesis
    by (intro conjI r d l g getAllTags_sorted_distinct [OF r d])
qed

text \<open>
  C8. On a READY store, \<open>deleteActivity\<close> never fails; it removes the rows with the id
  and returns \<open>true\<close> if and only if the table got shorter, which is if and only if a
  row had the id. For an id that no row has it returns \<open>false\<close> and leaves the state
  as it was.
\<close>

theorem delete_reports_removal:
  assumes "READY s"
  shows "\<exists>removed s'. deleteActivity s i = (Inr removed, s')
       \<and> activities s' = filter (\<lambda>r. col_id r \<noteq> i) (activities s)
       \<and> (removed \<longleftrightarrow> length (activities s') < length (activities s))
       \<and> (removed \<longleftrightarrow> i \<in> set (map col_id (activities s)))
       \<and> (i \<notin> set (map col_id (activities s)) \<longrightarrow> deleteActivity s i = (Inr False, s))"
  using assms
  by (auto simp: deleteActivity_def ensure_READY sql_delete_def Let_def filter_other_ids_length
      filter_other_ids_same)

theorem delete_reports_removal_witness:
  "READY store1
 \<and> ''nonexistent-id'' \<notin> set (map col_id (activities store1))
 \<and> deleteActivity store1 ''nonexistent-id'' = (Inr False, store1)
 \<and> deleteActivity store1 id1 = (Inr True, ready0)"
proof -
  have r: "READY store1" by code_simp
  have a: "''nonexistent-id'' \<notin> set (map col_id (activities store1))" by code_simp
  have n: "deleteActivity store1 ''nonexistent-id'' = (Inr False, store1)"
    using delete_reports_removal [OF r, of "''nonexistent-id''"] a by blast
  have y: "deleteActivity store1 id1 = (Inr True, ready0)" by code_simp
  show ?thesis
    by (intro conjI r a n y)
qed

text \<open>
  C9. \<open>initialize\<close> on a READY store returns at once and leaves the state as it was.
  On a store that is not READY, when opening the database or one of the three
  statements of \<open>createTables\<close> fails, \<open>initialize\<close> throws and leaves \<open>db = null\<close> and
  \<open>isInitialized = false\<close>, with the table untouched; when nothing fails it makes the
  store READY. After a failed call the store is not READY, and a later call in which
  nothing fails makes it READY.
\<close>

theorem initialize_ready_and_failure:
  "(READY s \<longrightarrow> initialize env s = (Inr (), s))
 \<and> (\<not> READY s \<and> init_fails env \<longrightarrow>
       (\<exists>e. initialize env s = (Inl e, s\<lparr>db := None, isInitialized := False\<rparr>)))
 \<and> (\<not> READY s \<and> \<not> init_fails env \<longrightarrow>
       (\<exists>h. initialize env s = (Inr (), s\<lparr>db := Some h, isInitialized := True\<rparr>)))
 \<and> (\<forall>e s'. initialize env s = (Inl e, s') \<longrightarrow>
       init_fails env \<and> \<not> READY s' \<and> db s' = None \<and> \<not> isInitialized s'
     \<and> activities s' = activities s
     \<and> (\<not> init_fails env' \<longrightarrow>
           (\<exists>s''. initialize env' s' = (Inr (), s'') \<and> READY s'')))"
proof (intro conjI allI impI)
  assume "READY s"
  then show "initialize env s = (Inr (), s)" by (rule initialize_READY)
next
  assume "\<not> READY s \<and> init_fails env"
  then show "\<exists>e. initialize env s = (Inl e, s\<lparr>db := None, isInitialized := False\<rparr>)"
    using initialize_fails by blast
next
  assume "\<not> READY s \<and> \<not> init_fails env"
  then show "\<exists>h. initialize env s = (Inr (), s\<lparr>db := Some h, isInitialized := True\<rparr>)"
    using initialize_succeeds by blast
next
  fix e s'
  assume a: "initialize env s = (Inl e, s')"
  have n: "\<not> READY s"
    using a initialize_READY [of s env] by auto
  show f: "init_fails env"
    using a n initialize_succeeds [of s env] by auto
  have s': "s' = s\<lparr>db := None, isInitialized := False\<rparr>"
    using a initialize_fails [OF n f] by auto
  show "\<not> READY s'" "db s' = None" "\<not> isInitialized s'" "activities s' = activities s"
    by (simp_all add: s' READY_def)
  assume g: "\<not> init_fails env'"
  have "\<not> READY s'" by (simp add: s' READY_def)
  then obtain h where "initialize env' s' = (Inr (), s'\<lparr>db := Some h, isInitialized := True\<rparr>)"
    using initialize_succeeds [OF _ g] by blast
  moreover have "READY (s'\<lparr>db := Some h, isInitialized := True\<rparr>)" by (simp add: READY_def)
  ultimately show "\<exists>s''. initialize env' s' = (Inr (), s'') \<and> READY s''" by blast
qed

theorem initialize_ready_and_failure_witness:
  "READY store1 \<and> initialize index_fails store1 = (Inr (), store1)
 \<and> \<not> READY closed1 \<and> init_fails index_fails
 \<and> initialize index_fails closed1 = (Inl (ExecFailed 1), closed1)
 \<and> \<not> init_fails all_fine
 \<and> initialize all_fine closed1 = (Inr (), store1)"
proof -
  have r: "READY store1" by code_simp
  have c: "\<not> READY closed1" by (simp add: closed1_def READY_def)
  have f: "init_fails index_fails" by (simp add: init_fails_def index_fails_def)
  have g: "\<not> init_fails all_fine" by (simp add: init_fails_def all_fine_def)
  have i: "initialize index_fails store1 = (Inr (), store1)"
    using initialize_ready_and_failure [of store1 index_fails] r by blast
  have x: "initialize index_fails closed1 = (Inl (ExecFailed 1), closed1)" by code_simp
  have y: "initialize all_fine closed1 = (Inr (), store1)" by code_simp
  show ?thesis
    by (intro conjI r i c f x g y)
qed

text \<open>
  C10. On a READY store, the activity that a successful \<open>updateActivity\<close> returns, which
  it builds from the activity it read and the update without reading the table again,
  is the activity that \<open>getActivityById\<close> with the same id reads from the table right
  afterwards, in all six fields.
\<close>

theorem update_result_is_stored:
  assumes "READY s" and "updateActivity now s i updates = (Inr (Some updated), s')"
  shows "getActivityById s' i = Inr (Some updated) \<and> id' updated = i"
proof -
  from assms obtain r existing h c t where
    r: "sql_first_by_id i (activities s) = Some r" and
    e: "to_activity r = Inr existing" and
    u: "updated = existing\<lparr>handle := h, committed_on := c, tags := t, updated_at := now\<rparr>"
    by (rule updateActivity_success)
  have "id' updated = i"
    using first_by_id_Some [OF r] to_activity_fields [OF e] by (simp add: u)
  then show ?thesis
    using getActivityById_after_update [OF assms] by simp
qed

theorem update_result_is_stored_witness:
  "READY store4
 \<and> fst (updateActivity ''2024-01-04T08:30:00.000Z'' store4 ''1704067260000k1x9c0q7a'' all_fields)
      = Inr (Some \<lparr>handle = ''run 5k'', committed_on = ''2024-01-04'',
                    tags = [''exercise'', [CHR ''5'', bslash, CHR ''k'']],
                    id' = ''1704067260000k1x9c0q7a'',
                    created_at = ''2024-01-01T00:01:00.000Z'',
                    updated_at = ''2024-01-04T08:30:00.000Z''\<rparr>)
 \<and> getActivityById
      (snd (updateActivity ''2024-01-04T08:30:00.000Z'' store4 ''1704067260000k1x9c0q7a'' all_fields))
      ''1704067260000k1x9c0q7a''
      = fst (updateActivity ''2024-01-04T08:30:00.000Z'' store4 ''1704067260000k1x9c0q7a'' all_fields)"
proof -
  have r: "READY store4" by code_simp
  have u: "fst (updateActivity ''2024-01-04T08:30:00.000Z'' store4 ''1704067260000k1x9c0q7a'' all_fields)
      = Inr (Some \<lparr>handle = ''run 5k'', committed_on = ''2024-01-04'',
                    tags = [''exercise'', [CHR ''5'', bslash, CHR ''k'']],
                    id' = ''1704067260000k1x9c0q7a'',
                    created_at = ''2024-01-01T00:01:00.000Z'',
                    updated_at = ''2024-01-04T08:30:00.000Z''\<rparr>)"
    by code_simp
  then have "updateActivity ''2024-01-04T08:30:00.000Z'' store4 ''1704067260000k1x9c0q7a'' all_fields
      = (Inr (Some \<lparr>handle = ''run 5k'', committed_on = ''2024-01-04'',
                    tags = [''exercise'', [CHR ''5'', bslash, CHR ''k'']],
                    id' = ''1704067260000k1x9c0q7a'',
                    created_at = ''2024-01-01T00:01:00.000Z'',
                    updated_at = ''2024-01-04T08:30:00.000Z''\<rparr>),
         snd (updateActivity ''2024-01-04T08:30:00.000Z'' store4 ''1704067260000k1x9c0q7a''
                all_fields))"
    by (simp add: prod_eq_iff)
  from update_result_is_stored [OF r this] u r show ?thesis by simp
qed

end
